theory Spec2Isabelle
  imports Main
begin

section \<open>The legend dimension model of tui.chart\<close>

text \<open>
  A shallow embedding of \<^verbatim>\<open>src/js/legends/legendDimensionModel.js\<close>. Every method of
  the class is one HOL function of the same name (a leading underscore is dropped, since
  an Isabelle name starts with a letter). The object \<^verbatim>\<open>this\<close> is passed as a record.

  Numbers: label widths and heights are pixel counts, modelled as \<^typ>\<open>int\<close>. The one
  non-finite number the code can meet is the result of taking a maximum over no line at
  all, so a line width is a \<open>jsnum\<close>: a finite number or minus infinity.
\<close>

datatype jsnum = NegInfinity | Num int

text \<open>\<^verbatim>\<open>a >= b\<close> for a line width \<open>a\<close> and a finite chart width \<open>b\<close>.\<close>

fun jsnum_ge :: "jsnum \<Rightarrow> int \<Rightarrow> bool" where
  "jsnum_ge NegInfinity b = False"
| "jsnum_ge (Num a) b = (b \<le> a)"

subsection \<open>What the module requires\<close>

record labelTheme =
  fontSize :: int
  fontFamily :: string

record legendTheme =
  label :: labelTheme

text \<open>
  The legend options. \<open>None\<close> is a property that is absent (\<^verbatim>\<open>undefined\<close>).
\<close>

record legendOptions =
  hasCheckbox :: "bool option"
  align :: "string option"
  hidden :: "bool option"

text \<open>
  The modules \<^verbatim>\<open>../const\<close>, \<^verbatim>\<open>../helpers/predicate\<close> and
  \<^verbatim>\<open>../helpers/renderUtil\<close> are required by the file and are not part of it; what
  the file reads from them is a parameter of the model. \<open>maxOfEmpty\<close> is the value of
  \<^verbatim>\<open>tui.util.max\<close> on an empty array (minus infinity if it is \<^verbatim>\<open>Math.max\<close>
  applied to the array), also left open.
\<close>

record chartEnv =
  LEGEND_CHECKBOX_WIDTH :: int
  LEGEND_RECT_WIDTH :: int
  LEGEND_LABEL_LEFT_PADDING :: int
  LEGEND_AREA_PADDING :: int
  isPieTypeChart :: "string \<Rightarrow> bool"
  isPieLegendAlign :: "string option \<Rightarrow> bool"
  isHorizontalLegend :: "string option \<Rightarrow> bool"
  getRenderedLabelWidth :: "string \<Rightarrow> labelTheme \<Rightarrow> int"
  getRenderedLabelsMaxHeight :: "string list \<Rightarrow> labelTheme \<Rightarrow> int"
  maxOfEmpty :: jsnum

text \<open>
  Modelled from the spec: \<^verbatim>\<open>renderUtil.getRenderedLabelsMaxWidth\<close> is missing from
  the sources. Section 4.4 of the specification makes the vertical width the footprint of
  the single widest label of the sequence, measured by the text-measurement capability,
  so the helper yields the largest rendered width among the labels. The specification
  gives no value for an empty sequence; the model yields 0 there.
\<close>

fun getRenderedLabelsMaxWidth :: "chartEnv \<Rightarrow> string list \<Rightarrow> labelTheme \<Rightarrow> int" where
  "getRenderedLabelsMaxWidth env [] labelTheme = 0"
| "getRenderedLabelsMaxWidth env (lbl # labels) labelTheme =
     fold (\<lambda>l acc. max acc (getRenderedLabelWidth env l labelTheme)) labels
       (getRenderedLabelWidth env lbl labelTheme)"

subsection \<open>The collection helpers of \<^verbatim>\<open>tui.util\<close>\<close>

text \<open>
  The helpers of \<^verbatim>\<open>tui.util\<close> are called by the file and defined outside it.

  Modelled from the spec: \<^verbatim>\<open>tui.util.sum\<close>. Section 4.2 has a group's footprint as
  the sum of its labels' footprints; the values are added to 0 from left to right.
\<close>

definition tui_util_sum :: "int list \<Rightarrow> int" where
  "tui_util_sum values = foldl (+) 0 values"

text \<open>
  Modelled from the spec: \<^verbatim>\<open>tui.util.max\<close>. Section 4.2 takes the maximum across
  groups, so on a non-empty array it is the largest element. For an empty array the
  value is not fixed here: it is the parameter \<open>maxOfEmpty\<close> of the environment.
\<close>

fun tui_util_max :: "jsnum \<Rightarrow> int list \<Rightarrow> jsnum" where
  "tui_util_max e [] = e"
| "tui_util_max e (x # xs) = Num (fold (\<lambda>y acc. max acc y) xs x)"

text \<open>
  Modelled from the spec: \<^verbatim>\<open>tui.util.map\<close>. Section 4.3 sums over each line group,
  so the function is applied to the elements of the array in order. The argument can be
  \<^verbatim>\<open>undefined\<close> in the code, which the specification does not consider; the model
  then has no element to visit.
\<close>

definition tui_util_map :: "('a \<Rightarrow> 'b) \<Rightarrow> 'a list option \<Rightarrow> 'b list" where
  "tui_util_map iteratee arr = (case arr of None \<Rightarrow> [] | Some xs \<Rightarrow> map iteratee xs)"

text \<open>
  Modelled from the spec: \<^verbatim>\<open>tui.util.all\<close>. Section 4.5 asks that every chart type
  in \<^verbatim>\<open>chartTypes\<close> belongs to the pie family.
\<close>

definition tui_util_all :: "'a list \<Rightarrow> ('a \<Rightarrow> bool) \<Rightarrow> bool" where
  "tui_util_all arr condition = list_all condition arr"

subsection \<open>The constructor\<close>

record initParams =
  param_chartType :: string
  param_chartTypes :: "string list option"
  param_options :: legendOptions
  param_theme :: legendTheme
  param_legendLabels :: "string list"

record legendDimensionModel =
  chartType :: string
  chartTypes :: "string list"
  options :: legendOptions
  theme :: legendTheme
  legendLabels :: "string list"
  legendCheckboxWidth :: int

text \<open>
  \<^verbatim>\<open>params.chartTypes || [this.chartType]\<close>: an array, even an empty one, is truthy, so
  the default is taken only when the property is absent.
\<close>

definition init :: "chartEnv \<Rightarrow> initParams \<Rightarrow> legendDimensionModel" where
  "init env params =
     \<lparr> chartType = param_chartType params,
       chartTypes = (case param_chartTypes params of
                       None \<Rightarrow> [param_chartType params]
                     | Some cts \<Rightarrow> cts),
       options = param_options params,
       theme = param_theme params,
       legendLabels = param_legendLabels params,
       legendCheckboxWidth = (if hasCheckbox (param_options params) = Some False then 0
                              else LEGEND_CHECKBOX_WIDTH env) \<rparr>"

subsection \<open>The width of one legend and of one line\<close>

definition makeLegendWidth :: "chartEnv \<Rightarrow> legendDimensionModel \<Rightarrow> int \<Rightarrow> int" where
  "makeLegendWidth env this labelWidth =
     labelWidth + legendCheckboxWidth this + LEGEND_RECT_WIDTH env +
       LEGEND_LABEL_LEFT_PADDING env + LEGEND_AREA_PADDING env"

definition calculateLegendsWidthSum ::
  "chartEnv \<Rightarrow> legendDimensionModel \<Rightarrow> string list \<Rightarrow> labelTheme \<Rightarrow> int" where
  "calculateLegendsWidthSum env this labels labelTheme =
     tui_util_sum (map (\<lambda>lbl. makeLegendWidth env this (getRenderedLabelWidth env lbl labelTheme))
                       labels)"

subsection \<open>Dividing the labels into lines\<close>

text \<open>
  \<^verbatim>\<open>Math.round(labels.length / count)\<close>. The quotient of two array-sized integers is
  rounded to the nearest integer, a half upwards: \<open>\<lfloor>(2n + k) / 2k\<rfloor>\<close>. A count of 0
  gives infinity, and 0 / 0 is not a number.
\<close>

datatype limit = Finite nat | Infinity | NaN

definition math_round_div :: "nat \<Rightarrow> nat \<Rightarrow> limit" where
  "math_round_div n k =
     (if k = 0 then (if n = 0 then NaN else Infinity)
      else Finite ((2 * n + k) div (2 * k)))"

text \<open>\<^verbatim>\<open>temp.length < limitCount\<close>.\<close>

fun lt_limit :: "nat \<Rightarrow> limit \<Rightarrow> bool" where
  "lt_limit m (Finite l) = (m < l)"
| "lt_limit m Infinity = True"
| "lt_limit m NaN = False"

text \<open>
  One round of the \<^verbatim>\<open>forEachArray\<close> callback, on the pair of the two local arrays
  \<^verbatim>\<open>results\<close> and \<^verbatim>\<open>temp\<close>.
\<close>

definition divideStep ::
  "limit \<Rightarrow> string list list \<times> string list \<Rightarrow> string \<Rightarrow> string list list \<times> string list" where
  "divideStep limitCount st lbl =
     (case st of (results, temp) \<Rightarrow>
        if lt_limit (length temp) limitCount then (results, temp @ [lbl])
        else (results @ [temp], [lbl]))"

definition divideLegendLabels :: "string list \<Rightarrow> nat \<Rightarrow> string list list" where
  "divideLegendLabels labels count =
     (let limitCount = math_round_div (length labels) count in
      case foldl (divideStep limitCount) ([], []) labels of
        (results, temp) \<Rightarrow> if temp \<noteq> [] then results @ [temp] else results)"

definition getMaxLineWidth ::
  "chartEnv \<Rightarrow> legendDimensionModel \<Rightarrow> string list list \<Rightarrow> labelTheme \<Rightarrow> jsnum" where
  "getMaxLineWidth env this dividedLabels labelTheme =
     tui_util_max (maxOfEmpty env)
       (map (\<lambda>labels. calculateLegendsWidthSum env this labels labelTheme) dividedLabels)"

subsection \<open>The partitioning loop\<close>

text \<open>
  The result of \<^verbatim>\<open>_makeDividedLabelsAndMaxLineWidth\<close>, and the local variables of its
  loop. \<open>None\<close> is \<^verbatim>\<open>undefined\<close>, the value of \<^verbatim>\<open>prevLabels\<close> before the first
  round is over.
\<close>

record partitioning =
  dividedLabels :: "string list list option"
  maxLineWidth :: jsnum

record loopVars = partitioning +
  divideCount :: nat
  prevMaxWidth :: jsnum
  prevLabels :: "string list list option"

text \<open>
  The \<^verbatim>\<open>do ... while\<close> loop: the body runs, then the condition is tested. The
  \<^verbatim>\<open>break\<close> leaves \<^verbatim>\<open>divideCount\<close> as it is.
\<close>

function (domintros) divideLoop ::
  "chartEnv \<Rightarrow> legendDimensionModel \<Rightarrow> string list \<Rightarrow> int \<Rightarrow> labelTheme \<Rightarrow> loopVars \<Rightarrow> loopVars"
  where
  "divideLoop env this labels chartWidth labelTheme s =
     (let dl = divideLegendLabels labels (divideCount s);
          mlw = getMaxLineWidth env this dl labelTheme
      in if prevMaxWidth s = mlw
         then s\<lparr>dividedLabels := prevLabels s, maxLineWidth := mlw\<rparr>
         else if jsnum_ge mlw chartWidth
           then divideLoop env this labels chartWidth labelTheme
                  (s\<lparr>dividedLabels := Some dl, maxLineWidth := mlw, prevMaxWidth := mlw,
                     prevLabels := Some dl, divideCount := divideCount s + 1\<rparr>)
           else s\<lparr>dividedLabels := Some dl, maxLineWidth := mlw, prevMaxWidth := mlw,
                  prevLabels := Some dl, divideCount := divideCount s + 1\<rparr>)"
  by pat_completeness auto

text \<open>
  The loop ends from every state. Once the count exceeds twice the number of labels the
  rounded line size is 0 and the division no longer depends on the count, so at most one
  more round can follow.
\<close>

definition loopMeasure ::
  "chartEnv \<times> legendDimensionModel \<times> string list \<times> int \<times> labelTheme \<times> loopVars \<Rightarrow> nat" where
  "loopMeasure = (\<lambda>(env, this, labels, chartWidth, labelTheme, s).
     if 2 * length labels < divideCount s
     then (if prevMaxWidth s =
              getMaxLineWidth env this (divideLegendLabels labels (2 * length labels + 1)) labelTheme
           then 0 else 1)
     else 2 * length labels + 3 - divideCount s)"

lemma divideLegendLabels_stable:
  assumes "2 * length labels < k"
  shows "divideLegendLabels labels k = divideLegendLabels labels (2 * length labels + 1)"
proof -
  have "math_round_div (length labels) k = Finite 0"
    using assms by (simp add: math_round_div_def)
  moreover have "math_round_div (length labels) (2 * length labels + 1) = Finite 0"
    by (simp add: math_round_div_def)
  ultimately show ?thesis by (simp add: divideLegendLabels_def)
qed

lemma loopMeasure_decreases:
  assumes dl: "dl = divideLegendLabels labels (divideCount s)"
    and mlw: "mlw = getMaxLineWidth env this dl labelTheme"
    and ne: "prevMaxWidth s \<noteq> mlw"
  shows "loopMeasure (env, this, labels, chartWidth, labelTheme,
           s\<lparr>dividedLabels := Some dl, maxLineWidth := mlw, prevMaxWidth := mlw,
             prevLabels := Some dl, divideCount := divideCount s + 1\<rparr>)
         < loopMeasure (env, this, labels, chartWidth, labelTheme, s)"
proof (cases "2 * length labels < divideCount s")
  case True
  from divideLegendLabels_stable [OF True]
  have "mlw = getMaxLineWidth env this
                (divideLegendLabels labels (2 * length labels + 1)) labelTheme"
    unfolding mlw dl by (rule arg_cong)
  with True ne show ?thesis by (simp add: loopMeasure_def)
next
  case False
  then show ?thesis by (auto simp add: loopMeasure_def)
qed

lemma divideLoop_total: "divideLoop_dom (env, this, labels, chartWidth, labelTheme, s)"
proof (induction "loopMeasure (env, this, labels, chartWidth, labelTheme, s)"
    arbitrary: s rule: less_induct)
  case less
  let ?dl = "divideLegendLabels labels (divideCount s)"
  let ?mlw = "getMaxLineWidth env this ?dl labelTheme"
  show ?case
  proof (rule divideLoop.domintros)
    assume "prevMaxWidth s \<noteq> ?mlw"
    with refl refl
    have "loopMeasure (env, this, labels, chartWidth, labelTheme,
            s\<lparr>dividedLabels := Some ?dl, maxLineWidth := ?mlw, prevMaxWidth := ?mlw,
              prevLabels := Some ?dl, divideCount := divideCount s + 1\<rparr>)
          < loopMeasure (env, this, labels, chartWidth, labelTheme, s)"
      by (rule loopMeasure_decreases)
    then have "divideLoop_dom (env, this, labels, chartWidth, labelTheme,
                 s\<lparr>dividedLabels := Some ?dl, maxLineWidth := ?mlw, prevMaxWidth := ?mlw,
                   prevLabels := Some ?dl, divideCount := divideCount s + 1\<rparr>)"
      by (rule less.hyps)
    then show "divideLoop_dom (env, this, labels, chartWidth, labelTheme,
                 s\<lparr>dividedLabels := Some ?dl, maxLineWidth := ?mlw, prevMaxWidth := ?mlw,
                   prevLabels := Some ?dl, divideCount := Suc (divideCount s)\<rparr>)"
      by simp
  qed
qed

termination divideLoop
  by (auto intro: divideLoop_total)

declare divideLoop.simps [simp del]

text \<open>
  The variables as \<^verbatim>\<open>var\<close> declares them: the two arrays start out
  \<^verbatim>\<open>undefined\<close>.
\<close>

definition initialLoopVars :: loopVars where
  "initialLoopVars =
     \<lparr>dividedLabels = None, maxLineWidth = Num 0,
      divideCount = 1, prevMaxWidth = Num 0, prevLabels = None\<rparr>"

definition makeDividedLabelsAndMaxLineWidth ::
  "chartEnv \<Rightarrow> legendDimensionModel \<Rightarrow> string list \<Rightarrow> int \<Rightarrow> labelTheme \<Rightarrow> partitioning" where
  "makeDividedLabelsAndMaxLineWidth env this labels chartWidth labelTheme =
     (let s = divideLoop env this labels chartWidth labelTheme initialLoopVars
      in \<lparr>dividedLabels = dividedLabels s, maxLineWidth = maxLineWidth s\<rparr>)"

subsection \<open>The dimensions\<close>

text \<open>
  The object that \<^verbatim>\<open>makeDimension\<close> returns. \<open>height = None\<close> is an object with no
  \<^verbatim>\<open>height\<close> property.
\<close>

record dimension =
  width :: jsnum
  height :: "int option"

definition calculateHorizontalLegendHeight ::
  "chartEnv \<Rightarrow> string list list option \<Rightarrow> labelTheme \<Rightarrow> int" where
  "calculateHorizontalLegendHeight env dividedLabels' labelTheme =
     tui_util_sum (tui_util_map (\<lambda>labels. getRenderedLabelsMaxHeight env labels labelTheme)
                                dividedLabels')"

definition makeHorizontalDimension :: "chartEnv \<Rightarrow> legendDimensionModel \<Rightarrow> int \<Rightarrow> dimension" where
  "makeHorizontalDimension env this chartWidth =
     (let labelTheme = label (theme this);
          labelsAndMaxWidth =
            makeDividedLabelsAndMaxLineWidth env this (legendLabels this) chartWidth labelTheme;
          horizontalLegendHeight =
            calculateHorizontalLegendHeight env (dividedLabels labelsAndMaxWidth) labelTheme;
          legendHeight = horizontalLegendHeight + LEGEND_AREA_PADDING env * 2
      in \<lparr>width = maxLineWidth labelsAndMaxWidth, height = Some legendHeight\<rparr>)"

definition makeVerticalDimension :: "chartEnv \<Rightarrow> legendDimensionModel \<Rightarrow> dimension" where
  "makeVerticalDimension env this =
     (let maxLabelWidth = getRenderedLabelsMaxWidth env (legendLabels this) (label (theme this));
          legendWidth = makeLegendWidth env this maxLabelWidth
      in \<lparr>width = Num legendWidth, height = Some 0\<rparr>)"

text \<open>
  \<^verbatim>\<open>(isPieTypeCharts && isPieLegendAlign) || this.options.hidden\<close>: the value is
  \<^verbatim>\<open>true\<close>, or else whatever \<^verbatim>\<open>hidden\<close> is, possibly \<^verbatim>\<open>undefined\<close>. The caller
  tests it for truthiness.
\<close>

definition isSkipLegend :: "chartEnv \<Rightarrow> legendDimensionModel \<Rightarrow> bool option" where
  "isSkipLegend env this =
     (let isPieTypeCharts = tui_util_all (chartTypes this) (isPieTypeChart env);
          isPieLegendAlign' = isPieLegendAlign env (align (options this))
      in if isPieTypeCharts \<and> isPieLegendAlign' then Some True else hidden (options this))"

definition truthy :: "bool option \<Rightarrow> bool" where
  "truthy v = (v = Some True)"

definition makeDimension :: "chartEnv \<Rightarrow> legendDimensionModel \<Rightarrow> int \<Rightarrow> dimension" where
  "makeDimension env this chartWidth =
     (if truthy (isSkipLegend env this) then \<lparr>width = Num 0, height = None\<rparr>
      else if isHorizontalLegend env (align (options this))
        then makeHorizontalDimension env this chartWidth
        else makeVerticalDimension env this)"

subsection \<open>The division as the specification describes it\<close>

text \<open>
  The specification's wording of the division, for comparison with the code: labels are
  appended to the current group until it reaches the target size, then a new group
  starts, and any remainder forms a final shorter group. That is, the sequence is cut
  into consecutive runs of \<open>target\<close> labels.
\<close>

function specGroups :: "nat \<Rightarrow> 'a list \<Rightarrow> 'a list list" where
  "specGroups target labels =
     (if labels = [] \<or> target = 0 then []
      else take target labels # specGroups target (drop target labels))"
  by pat_completeness auto
termination
  by (relation "measure (\<lambda>(target, labels). length labels)") auto

declare specGroups.simps [simp del]

subsection \<open>Notions used to state the properties\<close>

text \<open>
  The maximum line width that the loop computes at division count \<open>k\<close>: the two calls
  at the head of the loop body.
\<close>

definition lineWidthAt ::
  "chartEnv \<Rightarrow> legendDimensionModel \<Rightarrow> string list \<Rightarrow> labelTheme \<Rightarrow> nat \<Rightarrow> jsnum" where
  "lineWidthAt env this labels labelTheme k =
     getMaxLineWidth env this (divideLegendLabels labels k) labelTheme"

text \<open>
  An environment and a model to run the functions on: three layout constants that add up
  to 7, no checkbox, and a table of rendered label widths.
\<close>

definition exampleWidth :: "string \<Rightarrow> labelTheme \<Rightarrow> int" where
  "exampleWidth lbl labelTheme =
     (if lbl = ''A'' then 3 else if lbl = ''BB'' then 8 else if lbl = ''CCC'' then 15
      else if lbl = ''wide'' then 53 else 33)"

definition exampleEnv :: chartEnv where
  "exampleEnv =
     \<lparr>LEGEND_CHECKBOX_WIDTH = 5, LEGEND_RECT_WIDTH = 4, LEGEND_LABEL_LEFT_PADDING = 2,
      LEGEND_AREA_PADDING = 1,
      isPieTypeChart = (\<lambda>t. t = ''pie''),
      isPieLegendAlign = (\<lambda>a. a = Some ''center'' \<or> a = Some ''outer''),
      isHorizontalLegend = (\<lambda>a. a = Some ''top'' \<or> a = Some ''bottom''),
      getRenderedLabelWidth = exampleWidth,
      getRenderedLabelsMaxHeight = (\<lambda>labels labelTheme. if labels = [] then 0 else 20),
      maxOfEmpty = NegInfinity\<rparr>"

definition exampleTheme :: legendTheme where
  "exampleTheme = \<lparr>label = \<lparr>fontSize = 11, fontFamily = ''Arial''\<rparr>\<rparr>"

definition exampleModel ::
  "string \<Rightarrow> string option \<Rightarrow> bool option \<Rightarrow> string list \<Rightarrow> legendDimensionModel" where
  "exampleModel ct al hid labels =
     init exampleEnv
       \<lparr>param_chartType = ct, param_chartTypes = None,
        param_options = \<lparr>hasCheckbox = Some False, align = al, hidden = hid\<rparr>,
        param_theme = exampleTheme, param_legendLabels = labels\<rparr>"

section \<open>The division of the labels\<close>

lemma divideStep_pair:
  "divideStep lim (results, temp) lbl =
     (if lt_limit (length temp) lim then (results, temp @ [lbl]) else (results @ [temp], [lbl]))"
  by (simp add: divideStep_def)

text \<open>The equations that evaluate a line width and the examples.\<close>

lemmas example_defs =
  exampleWidth_def exampleEnv_def exampleTheme_def exampleModel_def init_def

lemmas width_defs =
  lineWidthAt_def getMaxLineWidth_def calculateLegendsWidthSum_def makeLegendWidth_def
  tui_util_sum_def divideLegendLabels_def math_round_div_def divideStep_pair

text \<open>
  The loop invariant of the division: the finished groups followed by the open group are
  the labels read so far.
\<close>

lemma foldl_divideStep_concat:
  "foldl (divideStep lim) (results, temp) labels = (r', t') \<Longrightarrow>
     concat r' @ t' = concat results @ temp @ labels"
proof (induction labels arbitrary: results temp)
  case Nil
  then show ?case by simp
next
  case (Cons x xs)
  show ?case
  proof (cases "lt_limit (length temp) lim")
    case True
    with Cons.prems have "foldl (divideStep lim) (results, temp @ [x]) xs = (r', t')"
      by (simp add: divideStep_pair)
    from Cons.IH [OF this] show ?thesis by simp
  next
    case False
    with Cons.prems have "foldl (divideStep lim) (results @ [temp], [x]) xs = (r', t')"
      by (simp add: divideStep_pair)
    from Cons.IH [OF this] show ?thesis by simp
  qed
qed

lemma concat_divideLegendLabels: "concat (divideLegendLabels labels count) = labels"
proof -
  obtain r' t'
    where f: "foldl (divideStep (math_round_div (length labels) count)) ([], []) labels = (r', t')"
    by (cases "foldl (divideStep (math_round_div (length labels) count)) ([], []) labels")
  from foldl_divideStep_concat [OF f] have "concat r' @ t' = labels" by simp
  with f show ?thesis by (auto simp add: divideLegendLabels_def)
qed

text \<open>
  C3. For every label sequence and every division count, the groups that
  \<^verbatim>\<open>_divideLegendLabels\<close> returns, concatenated in order, are the input labels
  exactly, and their lengths add up to the number of labels: every label lands in exactly
  one group, in the original order. (The count may be any number, 0 included.)
\<close>

theorem divideLegendLabels_partition:
  "concat (divideLegendLabels labels count) = labels \<and>
   sum_list (map length (divideLegendLabels labels count)) = length labels"
proof -
  have c: "concat (divideLegendLabels labels count) = labels"
    by (rule concat_divideLegendLabels)
  have "sum_list (map length (divideLegendLabels labels count)) =
        length (concat (divideLegendLabels labels count))"
    by (simp add: length_concat)
  with c show ?thesis by simp
qed

subsection \<open>The groups, one by one\<close>

text \<open>
  When the rounded line size is at least 1, the code and the specification's wording
  agree: the open group \<^verbatim>\<open>temp\<close> is the beginning of the next run.
\<close>

lemma specGroups_take:
  "0 < target \<Longrightarrow> length temp = target \<Longrightarrow> rest \<noteq> [] \<or> temp \<noteq> [] \<Longrightarrow>
   specGroups target (temp @ rest) = temp # specGroups target rest"
  by (subst specGroups.simps) auto

lemma foldl_divideStep_specGroups:
  assumes "0 < target" and "length temp \<le> target"
    and "foldl (divideStep (Finite target)) (results, temp) labels = (r', t')"
  shows "(if t' \<noteq> [] then r' @ [t'] else r') = results @ specGroups target (temp @ labels)"
  using assms(2,3)
proof (induction labels arbitrary: results temp)
  case Nil
  then have "r' = results" "t' = temp" by simp_all
  moreover have "specGroups target temp = (if temp = [] then [] else [temp])"
    using Nil.prems(1) assms(1) by (subst specGroups.simps, subst specGroups.simps) auto
  ultimately show ?case by simp
next
  case (Cons x xs)
  show ?case
  proof (cases "length temp < target")
    case True
    with Cons.prems have "foldl (divideStep (Finite target)) (results, temp @ [x]) xs = (r', t')"
      by (simp add: divideStep_pair)
    moreover from True have "length (temp @ [x]) \<le> target" by simp
    ultimately have "(if t' \<noteq> [] then r' @ [t'] else r') =
        results @ specGroups target ((temp @ [x]) @ xs)"
      by (rule Cons.IH [rotated])
    then show ?thesis by simp
  next
    case False
    with Cons.prems have len: "length temp = target" by simp
    from False Cons.prems
    have "foldl (divideStep (Finite target)) (results @ [temp], [x]) xs = (r', t')"
      by (simp add: divideStep_pair)
    moreover from assms(1) have "length [x] \<le> target" by simp
    ultimately have "(if t' \<noteq> [] then r' @ [t'] else r') =
        (results @ [temp]) @ specGroups target ([x] @ xs)"
      by (rule Cons.IH [rotated])
    moreover have "specGroups target (temp @ x # xs) = temp # specGroups target (x # xs)"
      using assms(1) len by (intro specGroups_take) auto
    ultimately show ?thesis by simp
  qed
qed

lemma divideLegendLabels_specGroups:
  assumes "math_round_div (length labels) count = Finite target" and "0 < target"
  shows "divideLegendLabels labels count = specGroups target labels"
proof -
  obtain r' t' where f: "foldl (divideStep (Finite target)) ([], []) labels = (r', t')"
    by (cases "foldl (divideStep (Finite target)) ([], []) labels")
  have "(if t' \<noteq> [] then r' @ [t'] else r') = [] @ specGroups target ([] @ labels)"
    by (rule foldl_divideStep_specGroups [OF assms(2) _ f]) simp
  with f assms(1) show ?thesis by (simp add: divideLegendLabels_def)
qed

lemma specGroups_lengths:
  "0 < target \<Longrightarrow> g \<in> set (specGroups target labels) \<Longrightarrow> 1 \<le> length g \<and> length g \<le> target"
proof (induction target labels rule: specGroups.induct)
  case (1 target labels)
  then show ?case
    by (subst (asm) (2) specGroups.simps) (auto simp add: Suc_le_eq split: if_splits)
qed

lemma specGroups_butlast:
  "0 < target \<Longrightarrow> g \<in> set (butlast (specGroups target labels)) \<Longrightarrow> length g = target"
proof (induction target labels rule: specGroups.induct)
  case (1 target labels)
  show ?case
  proof (cases "labels = []")
    case True
    with "1.prems" show ?thesis by (simp add: specGroups.simps)
  next
    case False
    note ne = this
    show ?thesis
    proof (cases "drop target labels = []")
      case True
      then have "specGroups target (drop target labels) = []" by (simp add: specGroups.simps)
      with ne "1.prems" have "specGroups target labels = [take target labels]"
        by (subst specGroups.simps) simp
      with "1.prems" show ?thesis by simp
    next
      case False
      then have ne2: "specGroups target (drop target labels) \<noteq> []"
        using "1.prems"(1) by (subst specGroups.simps) simp
      from ne "1.prems"(1)
      have eq: "specGroups target labels = take target labels # specGroups target (drop target labels)"
        by (subst specGroups.simps) simp
      from "1.prems"(2) ne2 have "g = take target labels \<or> g \<in> set (butlast (specGroups target (drop target labels)))"
        unfolding eq by simp
      then show ?thesis
      proof
        assume "g = take target labels"
        with False show ?thesis by simp
      next
        assume "g \<in> set (butlast (specGroups target (drop target labels)))"
        with "1.IH" ne "1.prems"(1) show ?thesis by simp
      qed
    qed
  qed
qed

lemma ceil_div_small:
  fixes n t :: nat
  assumes "0 < n" and "n \<le> t"
  shows "(n + t - 1) div t = 1"
proof -
  from assms obtain m where n: "n = Suc m" and m: "m < t"
    by (cases n) auto
  have "(n + t - 1) div t = (m + t) div t" by (simp add: n)
  also from m have "\<dots> = 1" by (simp add: div_add_self2)
  finally show ?thesis .
qed

lemma ceil_div_step:
  fixes n t :: nat
  assumes "t < n" and "0 < t"
  shows "(n + t - 1) div t = Suc ((n - t + t - 1) div t)"
proof -
  from assms obtain m where n: "n = Suc m" by (cases n) auto
  have "(n + t - 1) div t = (m + t) div t" by (simp add: n)
  also from assms have "\<dots> = Suc (m div t)" by (simp add: div_add_self2)
  also from assms have "m = n - t + t - 1" by (simp add: n)
  finally show ?thesis .
qed

lemma specGroups_length:
  "0 < target \<Longrightarrow> length (specGroups target labels) = (length labels + target - 1) div target"
proof (induction target labels rule: specGroups.induct)
  case (1 target labels)
  show ?case
  proof (cases "labels = []")
    case True
    with "1.prems" show ?thesis by (simp add: specGroups.simps)
  next
    case False
    with "1.prems"
    have eq: "specGroups target labels = take target labels # specGroups target (drop target labels)"
      by (subst specGroups.simps) simp
    from "1.IH" False "1.prems"
    have ih: "length (specGroups target (drop target labels)) =
              (length labels - target + target - 1) div target" by simp
    show ?thesis
    proof (cases "length labels \<le> target")
      case True
      from False have "0 < length labels" by simp
      from ceil_div_small [OF this True] ih True "1.prems" show ?thesis unfolding eq by simp
    next
      case False
      then have "target < length labels" by simp
      from ceil_div_step [OF this "1.prems"] ih show ?thesis unfolding eq by simp
    qed
  qed
qed


lemma specGroups_whole:
  assumes "labels \<noteq> []"
  shows "specGroups (length labels) labels = [labels]"
proof -
  from assms have "specGroups (length labels) labels =
      take (length labels) labels # specGroups (length labels) (drop (length labels) labels)"
    by (subst specGroups.simps) simp
  also have "\<dots> = [labels]" by (simp add: specGroups.simps)
  finally show ?thesis .
qed

text \<open>
  C4, as the code has it. For every label sequence and every division count whose
  rounded line size \<open>target = round(len(labels) / count)\<close> is at least 1,
  \<^verbatim>\<open>_divideLegendLabels\<close> cuts the labels into consecutive groups of \<open>target\<close>
  labels: every group but the last has exactly \<open>target\<close> labels, the last has between
  1 and \<open>target\<close>, and there are \<open>\<lceil>len(labels) / target\<rceil>\<close> groups, which need not
  be \<open>count\<close>. For a count of 1 the result is the single group of all labels.
\<close>

theorem divideLegendLabels_groups:
  assumes "math_round_div (length labels) count = Finite target" and "1 \<le> target"
  shows "divideLegendLabels labels count = specGroups target labels \<and>
    (\<forall>g\<in>set (butlast (divideLegendLabels labels count)). length g = target) \<and>
    (\<forall>g\<in>set (divideLegendLabels labels count). 1 \<le> length g \<and> length g \<le> target) \<and>
    length (divideLegendLabels labels count) = (length labels + target - 1) div target \<and>
    (count = 1 \<longrightarrow> divideLegendLabels labels count = [labels])"
proof -
  from assms(2) have pos: "0 < target" by simp
  have eq: "divideLegendLabels labels count = specGroups target labels"
    using assms(1) pos by (rule divideLegendLabels_specGroups)
  have one: "divideLegendLabels labels count = [labels]" if "count = 1"
  proof -
    from that assms(1) have t: "target = length labels" by (simp add: math_round_div_def)
    with pos have "labels \<noteq> []" by auto
    then show ?thesis unfolding eq t by (rule specGroups_whole)
  qed
  from pos one show ?thesis
    unfolding eq by (auto simp add: specGroups_butlast specGroups_length dest: specGroups_lengths)
qed

text \<open>
  Seven labels and a count of 3: the rounded line size is 2, and the groups are four.
\<close>

theorem divideLegendLabels_groups_witness:
  "math_round_div (length [''a'', ''b'', ''c'', ''d'', ''e'', ''f'', ''g'']) 3 = Finite 2 \<and>
   divideLegendLabels [''a'', ''b'', ''c'', ''d'', ''e'', ''f'', ''g''] 3 =
     [[''a'', ''b''], [''c'', ''d''], [''e'', ''f''], [''g'']] \<and>
   (7 + 2 - 1) div 2 = (4::nat)"
proof -
  have r: "math_round_div (length [''a'', ''b'', ''c'', ''d'', ''e'', ''f'', ''g'']) 3 = Finite 2"
    by (simp add: math_round_div_def)
  have "(1::nat) \<le> 2" by simp
  from divideLegendLabels_groups [OF r this]
  have "divideLegendLabels [''a'', ''b'', ''c'', ''d'', ''e'', ''f'', ''g''] 3 =
        specGroups 2 [''a'', ''b'', ''c'', ''d'', ''e'', ''f'', ''g'']" by blast
  also have "\<dots> = [[''a'', ''b''], [''c'', ''d''], [''e'', ''f''], [''g'']]"
    by (simp add: specGroups.simps)
  finally show ?thesis using r by simp
qed

text \<open>
  C4 as stated asks for exactly \<open>count\<close> groups. Seven labels divided with a count of
  3 do not come out as three groups.
\<close>

theorem divideLegendLabels_not_count_groups:
  "length (divideLegendLabels [''a'', ''b'', ''c'', ''d'', ''e'', ''f'', ''g''] 3) \<noteq> 3"
  by (simp add: divideLegendLabels_def math_round_div_def divideStep_pair)

section \<open>The partitioning loop\<close>

text \<open>The three ways through one round of the loop.\<close>

lemma divideLoop_break:
  assumes "prevMaxWidth s = lineWidthAt env this labels labelTheme (divideCount s)"
  shows "divideLoop env this labels chartWidth labelTheme s =
           s\<lparr>dividedLabels := prevLabels s,
             maxLineWidth := lineWidthAt env this labels labelTheme (divideCount s)\<rparr>"
  using assms by (subst divideLoop.simps) (simp add: Let_def lineWidthAt_def)

lemma divideLoop_exit:
  assumes "prevMaxWidth s \<noteq> lineWidthAt env this labels labelTheme (divideCount s)"
    and "\<not> jsnum_ge (lineWidthAt env this labels labelTheme (divideCount s)) chartWidth"
  shows "divideLoop env this labels chartWidth labelTheme s =
           s\<lparr>dividedLabels := Some (divideLegendLabels labels (divideCount s)),
             maxLineWidth := lineWidthAt env this labels labelTheme (divideCount s),
             prevMaxWidth := lineWidthAt env this labels labelTheme (divideCount s),
             prevLabels := Some (divideLegendLabels labels (divideCount s)),
             divideCount := divideCount s + 1\<rparr>"
  using assms by (subst divideLoop.simps) (simp add: Let_def lineWidthAt_def)

lemma divideLoop_continue:
  assumes "prevMaxWidth s \<noteq> lineWidthAt env this labels labelTheme (divideCount s)"
    and "jsnum_ge (lineWidthAt env this labels labelTheme (divideCount s)) chartWidth"
  shows "divideLoop env this labels chartWidth labelTheme s =
           divideLoop env this labels chartWidth labelTheme
             (s\<lparr>dividedLabels := Some (divideLegendLabels labels (divideCount s)),
               maxLineWidth := lineWidthAt env this labels labelTheme (divideCount s),
               prevMaxWidth := lineWidthAt env this labels labelTheme (divideCount s),
               prevLabels := Some (divideLegendLabels labels (divideCount s)),
               divideCount := divideCount s + 1\<rparr>)"
  using assms by (subst divideLoop.simps) (simp add: Let_def lineWidthAt_def)

text \<open>
  While the line width keeps changing and stays at least as wide as the chart, the loop
  goes on to the next count; it stops at the first count that repeats the width.
\<close>

lemma divideLoop_reaches:
  assumes cont: "\<forall>j\<in>{2..<k}. lineWidthAt env this labels labelTheme j \<noteq>
                              lineWidthAt env this labels labelTheme (j - 1)"
    and wide: "\<forall>j\<in>{1..<k}. jsnum_ge (lineWidthAt env this labels labelTheme j) chartWidth"
    and same: "lineWidthAt env this labels labelTheme k = lineWidthAt env this labels labelTheme (k - 1)"
    and j: "2 \<le> divideCount s" "divideCount s \<le> k"
    and prev: "prevMaxWidth s = lineWidthAt env this labels labelTheme (divideCount s - 1)"
      "prevLabels s = Some (divideLegendLabels labels (divideCount s - 1))"
  shows "dividedLabels (divideLoop env this labels chartWidth labelTheme s) =
           Some (divideLegendLabels labels (k - 1)) \<and>
         maxLineWidth (divideLoop env this labels chartWidth labelTheme s) =
           lineWidthAt env this labels labelTheme k \<and>
         divideCount (divideLoop env this labels chartWidth labelTheme s) = k"
  using j prev
proof (induction "k - divideCount s" arbitrary: s)
  case 0
  then have eq: "divideCount s = k" by simp
  with "0.prems" same have "prevMaxWidth s = lineWidthAt env this labels labelTheme (divideCount s)"
    by simp
  from divideLoop_break [OF this] "0.prems" eq show ?case by simp
next
  case (Suc d)
  let ?j = "divideCount s"
  let ?s' = "s\<lparr>dividedLabels := Some (divideLegendLabels labels ?j),
               maxLineWidth := lineWidthAt env this labels labelTheme ?j,
               prevMaxWidth := lineWidthAt env this labels labelTheme ?j,
               prevLabels := Some (divideLegendLabels labels ?j),
               divideCount := ?j + 1\<rparr>"
  from Suc.hyps(2) Suc.prems have lt: "?j \<in> {2..<k}" "?j \<in> {1..<k}" by auto
  from cont lt(1) have "lineWidthAt env this labels labelTheme ?j \<noteq>
      lineWidthAt env this labels labelTheme (?j - 1)" by blast
  with Suc.prems(3)
  have ne: "prevMaxWidth s \<noteq> lineWidthAt env this labels labelTheme ?j" by simp
  from wide lt(2) have ge: "jsnum_ge (lineWidthAt env this labels labelTheme ?j) chartWidth"
    by blast
  have step: "divideLoop env this labels chartWidth labelTheme s =
              divideLoop env this labels chartWidth labelTheme ?s'"
    using ne ge by (rule divideLoop_continue)
  have "d = k - divideCount ?s'" using Suc.hyps(2) by simp
  moreover have "2 \<le> divideCount ?s'" "divideCount ?s' \<le> k" using lt by simp_all
  moreover have "prevMaxWidth ?s' = lineWidthAt env this labels labelTheme (divideCount ?s' - 1)"
    "prevLabels ?s' = Some (divideLegendLabels labels (divideCount ?s' - 1))" by simp_all
  ultimately show ?case unfolding step by (rule Suc.hyps(1))
qed

text \<open>
  C1. Let the loop compute the maximum line width at the division counts \<open>1, \<dots>, k\<close>
  (\<open>k \<ge> 2\<close>): each width before \<open>k\<close> differs from the one before it (the first from
  the initial 0) and is at least the chart width. If the width at \<open>k\<close> equals the width
  at \<open>k - 1\<close>, the loop stops and \<^verbatim>\<open>_makeDividedLabelsAndMaxLineWidth\<close> returns the
  division of count \<open>k - 1\<close> with that repeated width, whether or not the width is still
  at least the chart width.
\<close>

theorem convergence_returns_previous:
  assumes "2 \<le> k"
    and first: "lineWidthAt env this labels labelTheme 1 \<noteq> Num 0"
    and cont: "\<forall>j\<in>{2..<k}. lineWidthAt env this labels labelTheme j \<noteq>
                         lineWidthAt env this labels labelTheme (j - 1)"
    and wide: "\<forall>j\<in>{1..<k}. jsnum_ge (lineWidthAt env this labels labelTheme j) chartWidth"
    and same: "lineWidthAt env this labels labelTheme k = lineWidthAt env this labels labelTheme (k - 1)"
  shows "makeDividedLabelsAndMaxLineWidth env this labels chartWidth labelTheme =
           \<lparr>dividedLabels = Some (divideLegendLabels labels (k - 1)),
            maxLineWidth = lineWidthAt env this labels labelTheme k\<rparr>"
proof -
  let ?s1 = "initialLoopVars\<lparr>dividedLabels := Some (divideLegendLabels labels 1),
               maxLineWidth := lineWidthAt env this labels labelTheme 1,
               prevMaxWidth := lineWidthAt env this labels labelTheme 1,
               prevLabels := Some (divideLegendLabels labels 1),
               divideCount := 2\<rparr>"
  have init: "divideCount initialLoopVars = 1" "prevMaxWidth initialLoopVars = Num 0"
    by (simp_all add: initialLoopVars_def)
  from assms(1) wide have "jsnum_ge (lineWidthAt env this labels labelTheme 1) chartWidth"
    by auto
  with first init
  have "divideLoop env this labels chartWidth labelTheme initialLoopVars =
        divideLoop env this labels chartWidth labelTheme
          (initialLoopVars\<lparr>dividedLabels := Some (divideLegendLabels labels (divideCount initialLoopVars)),
               maxLineWidth := lineWidthAt env this labels labelTheme (divideCount initialLoopVars),
               prevMaxWidth := lineWidthAt env this labels labelTheme (divideCount initialLoopVars),
               prevLabels := Some (divideLegendLabels labels (divideCount initialLoopVars)),
               divideCount := divideCount initialLoopVars + 1\<rparr>)"
    by (intro divideLoop_continue) simp_all
  then have step: "divideLoop env this labels chartWidth labelTheme initialLoopVars =
        divideLoop env this labels chartWidth labelTheme ?s1"
    by (simp add: init numeral_2_eq_2)
  have "dividedLabels (divideLoop env this labels chartWidth labelTheme ?s1) =
           Some (divideLegendLabels labels (k - 1)) \<and>
         maxLineWidth (divideLoop env this labels chartWidth labelTheme ?s1) =
           lineWidthAt env this labels labelTheme k \<and>
         divideCount (divideLoop env this labels chartWidth labelTheme ?s1) = k"
    using cont wide same by (rule divideLoop_reaches) (use assms(1) in simp_all)
  then show ?thesis
    by (simp add: makeDividedLabelsAndMaxLineWidth_def Let_def step)
qed


text \<open>
  The specification's example: two labels of footprints 60 and 40 and a chart 40 wide.
  The widths at the counts 1, 2, 3 are 100, 60, 60, and the result is the division of
  count 2 with width 60.
\<close>

theorem convergence_returns_previous_witness:
  "lineWidthAt exampleEnv (exampleModel ''bar'' (Some ''top'') None [''wide'', ''narrow''])
     [''wide'', ''narrow''] (label exampleTheme) 1 = Num 100 \<and>
   lineWidthAt exampleEnv (exampleModel ''bar'' (Some ''top'') None [''wide'', ''narrow''])
     [''wide'', ''narrow''] (label exampleTheme) 2 = Num 60 \<and>
   lineWidthAt exampleEnv (exampleModel ''bar'' (Some ''top'') None [''wide'', ''narrow''])
     [''wide'', ''narrow''] (label exampleTheme) 3 = Num 60 \<and>
   makeDividedLabelsAndMaxLineWidth exampleEnv
     (exampleModel ''bar'' (Some ''top'') None [''wide'', ''narrow''])
     [''wide'', ''narrow''] 40 (label exampleTheme) =
     \<lparr>dividedLabels = Some [[''wide''], [''narrow'']], maxLineWidth = Num 60\<rparr>"
proof -
  let ?m = "exampleModel ''bar'' (Some ''top'') None [''wide'', ''narrow'']"
  let ?W = "lineWidthAt exampleEnv ?m [''wide'', ''narrow''] (label exampleTheme)"
  have w1: "?W 1 = Num 100" by (simp add: width_defs example_defs)
  have w2: "?W 2 = Num 60" by (simp add: width_defs example_defs)
  have w3: "?W 3 = Num 60" by (simp add: width_defs example_defs)
  have d2: "divideLegendLabels [''wide'', ''narrow''] 2 = [[''wide''], [''narrow'']]"
    by (simp add: width_defs)
  have k: "(2::nat) \<le> 3" by simp
  have first: "?W 1 \<noteq> Num 0" using w1 by simp
  have cont: "\<forall>j\<in>{2..<3}. ?W j \<noteq> ?W (j - 1)"
  proof
    fix j :: nat assume "j \<in> {2..<3}"
    then have "j = 2" by auto
    then show "?W j \<noteq> ?W (j - 1)" using w1 w2 by simp
  qed
  have wide: "\<forall>j\<in>{1..<3}. jsnum_ge (?W j) 40"
  proof
    fix j :: nat assume "j \<in> {1..<3}"
    then have "j = 1 \<or> j = 2" by auto
    then show "jsnum_ge (?W j) 40" using w1 w2 by auto
  qed
  have same: "?W 3 = ?W (3 - 1)" using w2 w3 by simp
  from convergence_returns_previous [OF k first cont wide same] w1 w2 w3 d2
  show ?thesis by simp
qed

subsection \<open>Termination and the range of the division count\<close>

lemma round_one:
  fixes n k :: nat
  assumes "2 * n < 3 * k" and "k \<le> 2 * n"
  shows "(2 * n + k) div (2 * k) = 1"
proof (rule div_nat_eqI)
  from assms show "2 * k * 1 \<le> 2 * n + k" by simp
  from assms show "2 * n + k < 2 * k * Suc 1" by simp
qed

lemma divideLegendLabels_settled:
  "divideLegendLabels labels (2 * length labels div 3 + 2) =
   divideLegendLabels labels (2 * length labels div 3 + 1)"
proof (cases "labels = []")
  case True
  then show ?thesis by (simp add: divideLegendLabels_def)
next
  case False
  then have n: "1 \<le> length labels" by (simp add: Suc_le_eq)
  let ?n = "length labels"
  from n have "2 * ?n < 3 * (2 * ?n div 3 + 1)" "2 * ?n div 3 + 1 \<le> 2 * ?n"
    "2 * ?n < 3 * (2 * ?n div 3 + 2)" "2 * ?n div 3 + 2 \<le> 2 * ?n"
    by presburger+
  then have "(2 * ?n + (2 * ?n div 3 + 1)) div (2 * (2 * ?n div 3 + 1)) = 1"
    "(2 * ?n + (2 * ?n div 3 + 2)) div (2 * (2 * ?n div 3 + 2)) = 1"
    by (simp_all only: round_one)
  then have "math_round_div ?n (2 * ?n div 3 + 1) = Finite 1"
    "math_round_div ?n (2 * ?n div 3 + 2) = Finite 1"
    by (simp_all add: math_round_div_def)
  then show ?thesis by (simp add: divideLegendLabels_def)
qed

lemma divideLoop_count_le:
  assumes same: "lineWidthAt env this labels labelTheme (K + 1) =
                 lineWidthAt env this labels labelTheme K"
    and j: "2 \<le> divideCount s" "divideCount s \<le> K + 1"
    and prev: "prevMaxWidth s = lineWidthAt env this labels labelTheme (divideCount s - 1)"
  shows "divideCount (divideLoop env this labels chartWidth labelTheme s) \<le> K + 1"
  using j prev
proof (induction "K + 1 - divideCount s" arbitrary: s)
  case 0
  then have eq: "divideCount s = K + 1" by simp
  with "0.prems" same have "prevMaxWidth s = lineWidthAt env this labels labelTheme (divideCount s)"
    by simp
  from divideLoop_break [OF this] eq show ?case by simp
next
  case (Suc d)
  let ?j = "divideCount s"
  let ?W = "lineWidthAt env this labels labelTheme"
  let ?s' = "s\<lparr>dividedLabels := Some (divideLegendLabels labels ?j),
               maxLineWidth := ?W ?j, prevMaxWidth := ?W ?j,
               prevLabels := Some (divideLegendLabels labels ?j),
               divideCount := ?j + 1\<rparr>"
  from Suc.hyps(2) have lt: "?j \<le> K" by simp
  show ?case
  proof (cases "prevMaxWidth s = ?W ?j")
    case True
    from divideLoop_break [OF this] lt show ?thesis by simp
  next
    case ne: False
    show ?thesis
    proof (cases "jsnum_ge (?W ?j) chartWidth")
      case False
      from divideLoop_exit [OF ne this] lt show ?thesis by simp
    next
      case True
      have step: "divideLoop env this labels chartWidth labelTheme s =
                  divideLoop env this labels chartWidth labelTheme ?s'"
        using ne True by (rule divideLoop_continue)
      have "d = K + 1 - divideCount ?s'" using Suc.hyps(2) by simp
      moreover have "2 \<le> divideCount ?s'" "divideCount ?s' \<le> K + 1"
        using lt Suc.prems(1) by simp_all
      moreover have "prevMaxWidth ?s' = ?W (divideCount ?s' - 1)" by simp
      ultimately show ?thesis unfolding step by (rule Suc.hyps(1))
    qed
  qed
qed

lemma divideLoop_count_ge:
  "divideCount s \<le> divideCount (divideLoop env this labels chartWidth labelTheme s)"
proof (induction env this labels chartWidth labelTheme s rule: divideLoop.induct)
  case (1 env this labels chartWidth labelTheme s)
  let ?j = "divideCount s"
  let ?W = "lineWidthAt env this labels labelTheme"
  show ?case
  proof (cases "prevMaxWidth s = ?W ?j")
    case True
    from divideLoop_break [OF this] show ?thesis by simp
  next
    case ne: False
    show ?thesis
    proof (cases "jsnum_ge (?W ?j) chartWidth")
      case False
      from divideLoop_exit [OF ne this] show ?thesis by simp
    next
      case True
      from "1.IH" [OF refl refl] ne True
      have "?j + 1 \<le> divideCount (divideLoop env this labels chartWidth labelTheme
               (s\<lparr>dividedLabels := Some (divideLegendLabels labels ?j),
                  maxLineWidth := ?W ?j, prevMaxWidth := ?W ?j,
                  prevLabels := Some (divideLegendLabels labels ?j),
                  divideCount := ?j + 1\<rparr>))"
        by (simp add: lineWidthAt_def)
      with divideLoop_continue [OF ne True] show ?thesis by simp
    qed
  qed
qed

lemma divideLoop_count_initial:
  "divideCount (divideLoop env this labels chartWidth labelTheme initialLoopVars)
     \<le> 2 * length labels div 3 + 2"
proof -
  let ?W = "lineWidthAt env this labels labelTheme"
  let ?K = "2 * length labels div 3 + 1"
  let ?s1 = "initialLoopVars\<lparr>dividedLabels := Some (divideLegendLabels labels (divideCount initialLoopVars)),
               maxLineWidth := ?W (divideCount initialLoopVars),
               prevMaxWidth := ?W (divideCount initialLoopVars),
               prevLabels := Some (divideLegendLabels labels (divideCount initialLoopVars)),
               divideCount := divideCount initialLoopVars + 1\<rparr>"
  have init: "divideCount initialLoopVars = 1" by (simp add: initialLoopVars_def)
  have same: "?W (?K + 1) = ?W ?K"
    using divideLegendLabels_settled [of labels] by (simp add: lineWidthAt_def)
  show ?thesis
  proof (cases "prevMaxWidth initialLoopVars = ?W (divideCount initialLoopVars)")
    case True
    from divideLoop_break [OF this] init show ?thesis by simp
  next
    case ne: False
    show ?thesis
    proof (cases "jsnum_ge (?W (divideCount initialLoopVars)) chartWidth")
      case False
      from divideLoop_exit [OF ne this] init show ?thesis by simp
    next
      case True
      have "divideCount (divideLoop env this labels chartWidth labelTheme ?s1) \<le> ?K + 1"
        using same by (rule divideLoop_count_le) (simp_all add: init)
      with divideLoop_continue [OF ne True] show ?thesis by simp
    qed
  qed
qed

text \<open>
  C2, as the code has it. For every label sequence and every chart width (0 included)
  the loop terminates: the recursion of \<open>divideLoop\<close> from the initial variables is
  well-founded. The division count ends between 1 and \<open>\<lfloor>2 len(labels) / 3\<rfloor> + 2\<close>; from
  four labels on that is at most \<open>len(labels)\<close>.
\<close>

theorem partitioning_loop_terminates:
  "divideLoop_dom (env, this, labels, chartWidth, labelTheme, initialLoopVars) \<and>
   1 \<le> divideCount (divideLoop env this labels chartWidth labelTheme initialLoopVars) \<and>
   divideCount (divideLoop env this labels chartWidth labelTheme initialLoopVars)
     \<le> 2 * length labels div 3 + 2 \<and>
   (4 \<le> length labels \<longrightarrow>
      divideCount (divideLoop env this labels chartWidth labelTheme initialLoopVars)
        \<le> length labels)"
proof -
  let ?c = "divideCount (divideLoop env this labels chartWidth labelTheme initialLoopVars)"
  have "divideCount initialLoopVars \<le> ?c" by (rule divideLoop_count_ge)
  then have lo: "1 \<le> ?c" by (simp add: initialLoopVars_def)
  have hi: "?c \<le> 2 * length labels div 3 + 2" by (rule divideLoop_count_initial)
  have "2 * length labels div 3 + 2 \<le> length labels" if "4 \<le> length labels"
    using that by presburger
  with hi have "4 \<le> length labels \<longrightarrow> ?c \<le> length labels" by auto
  with lo hi divideLoop_total show ?thesis by blast
qed

text \<open>Four labels and a chart of width 0: the count stays within the four.\<close>

theorem partitioning_loop_terminates_witness:
  "4 \<le> length [''A'', ''BB'', ''CCC'', ''wide''] \<and>
   divideCount (divideLoop exampleEnv
       (exampleModel ''bar'' (Some ''top'') None [''A'', ''BB'', ''CCC'', ''wide''])
       [''A'', ''BB'', ''CCC'', ''wide''] 0 (label exampleTheme) initialLoopVars)
     \<le> length [''A'', ''BB'', ''CCC'', ''wide'']"
  using partitioning_loop_terminates
    [of exampleEnv "exampleModel ''bar'' (Some ''top'') None [''A'', ''BB'', ''CCC'', ''wide'']"
        "[''A'', ''BB'', ''CCC'', ''wide'']" 0 "label exampleTheme"]
  by simp

text \<open>
  C2 as stated bounds the division count by the number of labels. With one label and a
  chart of width 0 the loop divides with count 2, finds the width of count 1 again, and
  stops there: the count is beyond the number of labels.
\<close>

theorem count_exceeds_labels:
  "\<not> divideCount (divideLoop exampleEnv (exampleModel ''bar'' (Some ''top'') None [''A''])
        [''A''] 0 (label exampleTheme) initialLoopVars) \<le> length [''A'']"
  by (simp add: divideLoop.simps initialLoopVars_def getMaxLineWidth_def calculateLegendsWidthSum_def makeLegendWidth_def
  tui_util_sum_def divideLegendLabels_def math_round_div_def divideStep_pair example_defs Let_def)


subsection \<open>No labels\<close>

lemma lineWidthAt_empty: "lineWidthAt env this [] labelTheme k = maxOfEmpty env"
  by (simp add: lineWidthAt_def getMaxLineWidth_def divideLegendLabels_def)

text \<open>
  C5, as the code has it. For an empty label sequence \<^verbatim>\<open>_divideLegendLabels\<close> returns
  no line group at all, for every division count: the last group is pushed only if it is
  not empty. So, for every chart width, a partitioning that
  \<^verbatim>\<open>_makeDividedLabelsAndMaxLineWidth\<close> returns for an empty label sequence has no
  line group either.
\<close>

theorem empty_labels_partitioning:
  "divideLegendLabels [] count = [] \<and>
   (\<forall>groups. dividedLabels (makeDividedLabelsAndMaxLineWidth env this [] chartWidth labelTheme)
               = Some groups \<longrightarrow> groups = [])"
proof -
  let ?E = "maxOfEmpty env"
  let ?loop = "divideLoop env this [] chartWidth labelTheme"
  have d: "divideLegendLabels [] k = []" for k by (simp add: divideLegendLabels_def)
  have init: "divideCount initialLoopVars = 1" "prevMaxWidth initialLoopVars = Num 0"
    "prevLabels initialLoopVars = None"
    by (simp_all add: initialLoopVars_def)
  have "dividedLabels (?loop initialLoopVars) = None \<or>
        dividedLabels (?loop initialLoopVars) = Some []"
  proof (cases "prevMaxWidth initialLoopVars =
        lineWidthAt env this [] labelTheme (divideCount initialLoopVars)")
    case True
    from divideLoop_break [OF this] show ?thesis by (simp add: init)
  next
    case ne: False
    show ?thesis
    proof (cases "jsnum_ge (lineWidthAt env this [] labelTheme (divideCount initialLoopVars))
                    chartWidth")
      case True
      let ?s1 = "initialLoopVars\<lparr>dividedLabels := Some (divideLegendLabels [] (divideCount initialLoopVars)),
               maxLineWidth := lineWidthAt env this [] labelTheme (divideCount initialLoopVars),
               prevMaxWidth := lineWidthAt env this [] labelTheme (divideCount initialLoopVars),
               prevLabels := Some (divideLegendLabels [] (divideCount initialLoopVars)),
               divideCount := divideCount initialLoopVars + 1\<rparr>"
      have "prevMaxWidth ?s1 = lineWidthAt env this [] labelTheme (divideCount ?s1)"
        by (simp add: lineWidthAt_empty)
      from divideLoop_break [OF this, of chartWidth] divideLoop_continue [OF ne True]
      show ?thesis by (simp add: d)
    next
      case nge: False
      from divideLoop_exit [OF ne nge] show ?thesis by (simp add: d)
    qed
  qed
  then show ?thesis by (auto simp add: makeDividedLabelsAndMaxLineWidth_def Let_def d)
qed

lemmas loop_eval =
  makeDividedLabelsAndMaxLineWidth_def divideLoop.simps initialLoopVars_def
  getMaxLineWidth_def calculateLegendsWidthSum_def makeLegendWidth_def
  tui_util_sum_def divideLegendLabels_def math_round_div_def divideStep_pair Let_def

text \<open>No labels and a chart 100 wide: the partitioning is the empty array.\<close>

theorem empty_labels_partitioning_witness:
  "dividedLabels (makeDividedLabelsAndMaxLineWidth exampleEnv
       (exampleModel ''bar'' (Some ''top'') None []) [] 100 (label exampleTheme)) = Some [] \<and>
   divideLegendLabels [] 1 = []"
proof -
  have "\<exists>groups. dividedLabels (makeDividedLabelsAndMaxLineWidth exampleEnv
       (exampleModel ''bar'' (Some ''top'') None []) [] 100 (label exampleTheme)) = Some groups"
    by (simp add: loop_eval example_defs)
  with empty_labels_partitioning
    [of 1 exampleEnv "exampleModel ''bar'' (Some ''top'') None []" 100 "label exampleTheme"]
  show ?thesis by auto
qed

text \<open>
  C5 as stated has one empty line group as the result. Neither the division nor the
  returned partitioning is that.
\<close>

theorem empty_labels_no_empty_group:
  "divideLegendLabels [] 1 \<noteq> [[]] \<and>
   dividedLabels (makeDividedLabelsAndMaxLineWidth exampleEnv
     (exampleModel ''bar'' (Some ''top'') None []) [] 100 (label exampleTheme)) \<noteq> Some [[]] \<and>
   dividedLabels (makeDividedLabelsAndMaxLineWidth (exampleEnv\<lparr>maxOfEmpty := Num 0\<rparr>)
     (exampleModel ''bar'' (Some ''top'') None []) [] 100 (label exampleTheme)) \<noteq> Some [[]]"
  by (simp add: loop_eval example_defs)

section \<open>The dimensions\<close>

subsection \<open>Skipping the legend\<close>

lemma skip_dimension_iff:
  "makeDimension env this chartWidth = \<lparr>width = Num 0, height = None\<rparr> \<longleftrightarrow>
     truthy (isSkipLegend env this)"
  by (simp add: makeDimension_def makeHorizontalDimension_def makeVerticalDimension_def Let_def)

lemma truthy_isSkipLegend:
  "truthy (isSkipLegend env this) \<longleftrightarrow>
     ((\<forall>t\<in>set (chartTypes this). isPieTypeChart env t) \<and>
        isPieLegendAlign env (align (options this))) \<or>
     hidden (options this) = Some True"
  by (auto simp add: truthy_def isSkipLegend_def tui_util_all_def list_all_iff Let_def)

text \<open>When the legend is not skipped, the result is the layout the alignment asks for.\<close>

lemma unskipped_dimension:
  "\<not> truthy (isSkipLegend env this) \<Longrightarrow>
     makeDimension env this chartWidth =
       (if isHorizontalLegend env (align (options this))
        then makeHorizontalDimension env this chartWidth
        else makeVerticalDimension env this) \<and>
     height (makeDimension env this chartWidth) \<noteq> None"
  by (simp add: makeDimension_def makeHorizontalDimension_def makeVerticalDimension_def Let_def)

text \<open>
  C6. \<^verbatim>\<open>makeDimension\<close> returns the bare object \<^verbatim>\<open>{width: 0}\<close>, the one it builds
  without calling any layout or measurement function, exactly when every chart type is
  a pie type chart and the alignment is a pie legend alignment, or the \<^verbatim>\<open>hidden\<close>
  option is set. In particular it does so whenever \<^verbatim>\<open>hidden\<close> is true, and whenever
  the charts are all pie type with a pie legend alignment, whatever \<^verbatim>\<open>hidden\<close> is.
  When the predicate fails, the result is the layout that was computed: the horizontal
  dimension for a horizontal alignment and the vertical dimension otherwise, each with
  a \<^verbatim>\<open>height\<close>.
\<close>

theorem makeDimension_skip_iff:
  "(makeDimension env this chartWidth = \<lparr>width = Num 0, height = None\<rparr> \<longleftrightarrow>
      ((\<forall>t\<in>set (chartTypes this). isPieTypeChart env t) \<and>
         isPieLegendAlign env (align (options this))) \<or>
      hidden (options this) = Some True) \<and>
   (hidden (options this) = Some True \<longrightarrow>
      makeDimension env this chartWidth = \<lparr>width = Num 0, height = None\<rparr>) \<and>
   ((\<forall>t\<in>set (chartTypes this). isPieTypeChart env t) \<and>
      isPieLegendAlign env (align (options this)) \<longrightarrow>
      makeDimension env this chartWidth = \<lparr>width = Num 0, height = None\<rparr>) \<and>
   (\<not> (((\<forall>t\<in>set (chartTypes this). isPieTypeChart env t) \<and>
          isPieLegendAlign env (align (options this))) \<or>
        hidden (options this) = Some True) \<longrightarrow>
      makeDimension env this chartWidth =
        (if isHorizontalLegend env (align (options this))
         then makeHorizontalDimension env this chartWidth
         else makeVerticalDimension env this) \<and>
      height (makeDimension env this chartWidth) \<noteq> None)"
  using unskipped_dimension [of env this chartWidth]
  unfolding skip_dimension_iff truthy_isSkipLegend by blast

text \<open>
  A pie chart with a centred legend that is not hidden and a hidden legend of a bar
  chart are skipped. A bar chart with a visible legend on the left gets the vertical
  layout, and one with a visible legend on top the horizontal layout of two lines.
\<close>

theorem makeDimension_skip_iff_witness:
  "makeDimension exampleEnv (exampleModel ''pie'' (Some ''center'') (Some False) [''A'']) 100 =
     \<lparr>width = Num 0, height = None\<rparr> \<and>
   makeDimension exampleEnv (exampleModel ''bar'' (Some ''top'') (Some True) [''A'']) 100 =
     \<lparr>width = Num 0, height = None\<rparr> \<and>
   makeDimension exampleEnv (exampleModel ''bar'' (Some ''left'') (Some False) [''A'']) 100 =
     \<lparr>width = Num 10, height = Some 0\<rparr> \<and>
   makeDimension exampleEnv
     (exampleModel ''bar'' (Some ''top'') None [''wide'', ''narrow'']) 40 =
     \<lparr>width = Num 60, height = Some 42\<rparr>"
proof -
  have v: "makeVerticalDimension exampleEnv
             (exampleModel ''bar'' (Some ''left'') (Some False) [''A'']) =
           \<lparr>width = Num 10, height = Some 0\<rparr>"
    by (simp add: makeVerticalDimension_def makeLegendWidth_def example_defs)
  have h: "makeHorizontalDimension exampleEnv
             (exampleModel ''bar'' (Some ''top'') None [''wide'', ''narrow'']) 40 =
           \<lparr>width = Num 60, height = Some 42\<rparr>"
    by (simp add: makeHorizontalDimension_def calculateHorizontalLegendHeight_def
        tui_util_map_def loop_eval example_defs)
  from makeDimension_skip_iff
      [of exampleEnv "exampleModel ''pie'' (Some ''center'') (Some False) [''A'']" 100]
    makeDimension_skip_iff
      [of exampleEnv "exampleModel ''bar'' (Some ''top'') (Some True) [''A'']" 100]
    makeDimension_skip_iff
      [of exampleEnv "exampleModel ''bar'' (Some ''left'') (Some False) [''A'']" 100]
    makeDimension_skip_iff
      [of exampleEnv "exampleModel ''bar'' (Some ''top'') None [''wide'', ''narrow'']" 40]
    v h
  show ?thesis by (simp add: example_defs)
qed

text \<open>
  C7. When the legend is skipped, the dimension that \<^verbatim>\<open>makeDimension\<close> returns has no
  \<^verbatim>\<open>height\<close> property; its \<^verbatim>\<open>width\<close> is 0.
\<close>

theorem skipped_dimension_has_no_height:
  "truthy (isSkipLegend env this) \<Longrightarrow>
     height (makeDimension env this chartWidth) = None \<and>
     width (makeDimension env this chartWidth) = Num 0"
  by (simp add: makeDimension_def)

text \<open>A hidden legend.\<close>

theorem skipped_dimension_has_no_height_witness:
  "truthy (isSkipLegend exampleEnv (exampleModel ''bar'' (Some ''top'') (Some True) [''A''])) \<and>
   height (makeDimension exampleEnv (exampleModel ''bar'' (Some ''top'') (Some True) [''A'']) 100)
     = None \<and>
   width (makeDimension exampleEnv (exampleModel ''bar'' (Some ''top'') (Some True) [''A'']) 100)
     = Num 0"
proof -
  have t: "truthy (isSkipLegend exampleEnv
             (exampleModel ''bar'' (Some ''top'') (Some True) [''A'']))"
    by (simp add: truthy_def isSkipLegend_def tui_util_all_def Let_def example_defs)
  from skipped_dimension_has_no_height [OF t, of 100] t show ?thesis by simp
qed

subsection \<open>The footprint of a label\<close>

lemma foldl_add_sum_list: "foldl (+) a xs = a + sum_list xs" for a :: int
  by (induction xs arbitrary: a) simp_all

lemma tui_util_sum_eq: "tui_util_sum xs = sum_list xs"
  by (simp add: tui_util_sum_def foldl_add_sum_list)

text \<open>
  C8. In a model built by the constructor, the checkbox width is 0 when
  \<^verbatim>\<open>hasCheckbox\<close> is \<^verbatim>\<open>false\<close> and the constant \<^verbatim>\<open>LEGEND_CHECKBOX_WIDTH\<close>
  otherwise, also when the option is absent. The footprint of a label is its rendered
  width plus the checkbox width plus the three constants for the rectangle, the left
  padding of the label and the padding of the area; the width of a line is the sum of the
  footprints of its labels.
\<close>

theorem legend_footprint:
  "legendCheckboxWidth (init env params) =
     (if hasCheckbox (param_options params) = Some False then 0 else LEGEND_CHECKBOX_WIDTH env) \<and>
   legendCheckboxWidth
     (init env (params\<lparr>param_options := (param_options params)\<lparr>hasCheckbox := None\<rparr>\<rparr>)) =
     LEGEND_CHECKBOX_WIDTH env \<and>
   makeLegendWidth env (init env params) (getRenderedLabelWidth env lbl labelTheme) =
     getRenderedLabelWidth env lbl labelTheme + legendCheckboxWidth (init env params) +
       LEGEND_RECT_WIDTH env + LEGEND_LABEL_LEFT_PADDING env + LEGEND_AREA_PADDING env \<and>
   calculateLegendsWidthSum env (init env params) labels labelTheme =
     (\<Sum>l\<leftarrow>labels. getRenderedLabelWidth env l labelTheme +
         legendCheckboxWidth (init env params) +
         LEGEND_RECT_WIDTH env + LEGEND_LABEL_LEFT_PADDING env + LEGEND_AREA_PADDING env)"
  by (simp add: init_def makeLegendWidth_def calculateLegendsWidthSum_def tui_util_sum_eq)

subsection \<open>The vertical legend\<close>

lemma fold_max_Max:
  "fold (\<lambda>l acc. max acc (f l)) xs (a::int) = Max (set (a # map f xs))"
proof -
  have "(\<lambda>l acc. max acc (f l)) = max \<circ> f" by (auto simp add: fun_eq_iff max.commute)
  then have "fold (\<lambda>l acc. max acc (f l)) xs a = fold max (map f xs) a"
    by (simp add: fold_map)
  also have "\<dots> = Max (set (a # map f xs))" by (simp only: Max.set_eq_fold)
  finally show ?thesis .
qed

lemma getRenderedLabelsMaxWidth_Max:
  assumes "labels \<noteq> []"
  shows "getRenderedLabelsMaxWidth env labels labelTheme =
           Max ((\<lambda>l. getRenderedLabelWidth env l labelTheme) ` set labels)"
proof -
  from assms obtain x xs where l: "labels = x # xs" by (cases labels) auto
  show ?thesis unfolding l by (simp add: fold_max_Max)
qed

text \<open>
  C9. The dimension of a vertical legend has height 0, and for a non-empty label
  sequence its width is the largest footprint among all the labels.
\<close>

theorem vertical_dimension:
  "height (makeVerticalDimension env this) = Some 0 \<and>
   (legendLabels this \<noteq> [] \<longrightarrow>
      width (makeVerticalDimension env this) =
        Num (Max ((\<lambda>lbl. makeLegendWidth env this
                           (getRenderedLabelWidth env lbl (label (theme this))))
                  ` set (legendLabels this))))"
proof -
  have "makeLegendWidth env this
          (Max ((\<lambda>l. getRenderedLabelWidth env l (label (theme this))) ` set (legendLabels this))) =
        Max ((\<lambda>lbl. makeLegendWidth env this
                           (getRenderedLabelWidth env lbl (label (theme this))))
                  ` set (legendLabels this))"
    if "legendLabels this \<noteq> []"
  proof -
    have "mono (makeLegendWidth env this)" by (simp add: mono_def makeLegendWidth_def)
    moreover have "finite ((\<lambda>l. getRenderedLabelWidth env l (label (theme this))) ` set (legendLabels this))"
      by simp
    moreover from that have "(\<lambda>l. getRenderedLabelWidth env l (label (theme this))) ` set (legendLabels this) \<noteq> {}"
      by simp
    ultimately show ?thesis by (simp add: mono_Max_commute image_image)
  qed
  then show ?thesis
    by (simp add: makeVerticalDimension_def Let_def getRenderedLabelsMaxWidth_Max)
qed

text \<open>
  The specification's example: three labels of footprints 10, 15 and 22 give the width
  22 and the height 0.
\<close>

theorem vertical_dimension_witness:
  "map (\<lambda>lbl. makeLegendWidth exampleEnv
            (exampleModel ''bar'' (Some ''left'') None [''A'', ''BB'', ''CCC''])
            (getRenderedLabelWidth exampleEnv lbl (label exampleTheme)))
       [''A'', ''BB'', ''CCC''] = [10, 15, 22] \<and>
   makeVerticalDimension exampleEnv
     (exampleModel ''bar'' (Some ''left'') None [''A'', ''BB'', ''CCC'']) =
     \<lparr>width = Num 22, height = Some 0\<rparr>"
proof -
  let ?m = "exampleModel ''bar'' (Some ''left'') None [''A'', ''BB'', ''CCC'']"
  have l: "legendLabels ?m = [''A'', ''BB'', ''CCC'']" "theme ?m = exampleTheme"
    by (simp_all add: example_defs)
  have f: "map (\<lambda>lbl. makeLegendWidth exampleEnv ?m
            (getRenderedLabelWidth exampleEnv lbl (label exampleTheme)))
       [''A'', ''BB'', ''CCC''] = [10, 15, 22]"
    by (simp add: makeLegendWidth_def example_defs)
  from vertical_dimension [of exampleEnv ?m] f l
  have "height (makeVerticalDimension exampleEnv ?m) = Some 0 \<and>
        width (makeVerticalDimension exampleEnv ?m) = Num 22"
    by simp
  with f show ?thesis by (cases "makeVerticalDimension exampleEnv ?m") simp
qed

subsection \<open>The horizontal legend\<close>

text \<open>
  C10. For every model and chart width, the dimension of a horizontal legend has as its
  width the maximum line width that the partitioning returns, and as its height the sum,
  over the line groups that the partitioning returns, of the largest rendered label
  height of the group, plus twice the padding of the area. (Divided labels that are
  \<^verbatim>\<open>undefined\<close> count as no group.)
\<close>

theorem horizontal_dimension:
  "makeHorizontalDimension env this chartWidth =
     (let p = makeDividedLabelsAndMaxLineWidth env this (legendLabels this) chartWidth
                (label (theme this))
      in \<lparr>width = maxLineWidth p,
          height = Some ((\<Sum>labels\<leftarrow>(case dividedLabels p of None \<Rightarrow> [] | Some groups \<Rightarrow> groups).
                            getRenderedLabelsMaxHeight env labels (label (theme this))) +
                         LEGEND_AREA_PADDING env * 2)\<rparr>)"
  by (simp add: makeHorizontalDimension_def calculateHorizontalLegendHeight_def
      tui_util_sum_eq tui_util_map_def Let_def split: option.split)

end
